theory Spec2Isabelle
  imports Complex_Main
begin

section \<open>Python strings\<close>

text \<open>
  The engineer (\<^verbatim>\<open>engineer.py\<close>) works on Python \<^verbatim>\<open>str\<close> values. They are modelled as
  \<^typ>\<open>string\<close>, one \<^typ>\<open>char\<close> per code point, which covers the code points 0 to 255.
  On that range the character classes of \<^verbatim>\<open>str.isspace\<close> (used by \<^verbatim>\<open>str.strip\<close> and by
  the regular expression class \<^verbatim>\<open>\s\<close>), of \<^verbatim>\<open>\d\<close>, of \<^verbatim>\<open>\w\<close> and the mapping of
  \<^verbatim>\<open>str.lower\<close> are the ones written out below.
\<close>

definition NL :: char where
  "NL = CHR 0x0A"

definition DQ :: char where
  "DQ = CHR 0x22"

definition py_isspace :: "char \<Rightarrow> bool" where
  "py_isspace c = (of_char c \<in> {9, 10, 11, 12, 13, 28, 29, 30, 31, 32, 133, 160 :: nat})"

definition py_isdigit :: "char \<Rightarrow> bool" where
  "py_isdigit c = (48 \<le> (of_char c :: nat) \<and> (of_char c :: nat) \<le> 57)"

definition py_isword :: "char \<Rightarrow> bool" where
  "py_isword c =
     (let n = (of_char c :: nat) in
        (48 \<le> n \<and> n \<le> 57) \<or> (65 \<le> n \<and> n \<le> 90) \<or> n = 95 \<or> (97 \<le> n \<and> n \<le> 122) \<or>
        n \<in> {170, 178, 179, 181, 185, 186, 188, 189, 190} \<or>
        (192 \<le> n \<and> n \<le> 214) \<or> (216 \<le> n \<and> n \<le> 246) \<or> 248 \<le> n)"

definition py_lower_char :: "char \<Rightarrow> char" where
  "py_lower_char c =
     (let n = (of_char c :: nat) in
        if (65 \<le> n \<and> n \<le> 90) \<or> (192 \<le> n \<and> n \<le> 222 \<and> n \<noteq> 215)
        then char_of (n + 32) else c)"

definition py_lower :: "string \<Rightarrow> string" where
  "py_lower s = map py_lower_char s"

definition py_strip :: "string \<Rightarrow> string" where
  "py_strip s = rev (dropWhile py_isspace (rev (dropWhile py_isspace s)))"

text \<open>\<^verbatim>\<open>s.startswith(p)\<close>, \<^verbatim>\<open>s.endswith(p)\<close> and \<^verbatim>\<open>sub in s\<close>.\<close>

fun startswith :: "string \<Rightarrow> string \<Rightarrow> bool" where
  "startswith s [] = True"
| "startswith [] (p # ps) = False"
| "startswith (c # cs) (p # ps) = (c = p \<and> startswith cs ps)"

definition endswith :: "string \<Rightarrow> string \<Rightarrow> bool" where
  "endswith s p = startswith (rev s) (rev p)"

fun contains :: "string \<Rightarrow> string \<Rightarrow> bool" where
  "contains sub [] = (sub = [])"
| "contains sub (c # cs) = (startswith (c # cs) sub \<or> contains sub cs)"

definition startswith_any :: "string \<Rightarrow> string list \<Rightarrow> bool" where
  "startswith_any s ps = list_ex (startswith s) ps"

text \<open>\<^verbatim>\<open>s.split("\n")\<close> and \<^verbatim>\<open>"\n".join(ls)\<close>.\<close>

fun split_nl :: "string \<Rightarrow> string list" where
  "split_nl [] = [[]]"
| "split_nl (c # cs) =
     (if c = NL then [] # split_nl cs
      else (case split_nl cs of [] \<Rightarrow> [[c]] | l # ls \<Rightarrow> (c # l) # ls))"

fun join_nl :: "string list \<Rightarrow> string" where
  "join_nl [] = []"
| "join_nl [l] = l"
| "join_nl (l # ls) = l @ NL # join_nl ls"

text \<open>\<^verbatim>\<open>max(matches, key=len)\<close>: the first element of maximal length.\<close>

definition max_by_len :: "string list \<Rightarrow> string" where
  "max_by_len ms = foldl (\<lambda>best m. if length best < length m then m else best) (hd ms) (tl ms)"

text \<open>
  \<^verbatim>\<open>int(tok)\<close> on a token matched by \<^verbatim>\<open>-?\d+\<close>. Python's integers are unbounded, and
  so is \<^typ>\<open>int\<close>, but the conversion from a string is not total: the interpreter
  raises \<^verbatim>\<open>ValueError\<close> when the token has more digits than
  \<^verbatim>\<open>sys.get_int_max_str_digits()\<close> allows (4300 unless configured otherwise; 0 switches
  the limit off). Leading zeros count as digits, the sign does not. The limit is a
  parameter of the model.
\<close>

datatype error = ValueError

definition digit_val :: "char \<Rightarrow> int" where
  "digit_val c = int (of_char c) - 48"

definition int_of_digits :: "string \<Rightarrow> int" where
  "int_of_digits ds = foldl (\<lambda>a c. 10 * a + digit_val c) 0 ds"

definition digit_count :: "string \<Rightarrow> nat" where
  "digit_count tok = length (if tok \<noteq> [] \<and> hd tok = CHR ''-'' then tl tok else tok)"

definition within_limit :: "nat \<Rightarrow> string \<Rightarrow> bool" where
  "within_limit max_str_digits tok = (max_str_digits = 0 \<or> digit_count tok \<le> max_str_digits)"

fun int_value :: "string \<Rightarrow> int" where
  "int_value [] = 0"
| "int_value (c # cs) = (if c = CHR ''-'' then - int_of_digits cs else int_of_digits (c # cs))"

definition py_int :: "nat \<Rightarrow> string \<Rightarrow> error + int" where
  "py_int max_str_digits tok =
     (if within_limit max_str_digits tok then Inr (int_value tok) else Inl ValueError)"

text \<open>
  The list comprehension \<^verbatim>\<open>[int(n) for n in tokens]\<close>: the first token that cannot be
  converted ends it with the exception.
\<close>

fun py_ints :: "nat \<Rightarrow> string list \<Rightarrow> error + int list" where
  "py_ints max_str_digits [] = Inr []"
| "py_ints max_str_digits (tok # toks) =
     (case py_int max_str_digits tok of
        Inl e \<Rightarrow> Inl e
      | Inr i \<Rightarrow>
          (case py_ints max_str_digits toks of
             Inl e \<Rightarrow> Inl e
           | Inr rest \<Rightarrow> Inr (i # rest)))"

text \<open>
  \<^verbatim>\<open>str(n)\<close> as an f-string renders it. The engineer renders only integers that
  \<^verbatim>\<open>int\<close> has just produced from a token within the limit, so the rendering stays
  within the limit too.
\<close>

fun show_nat :: "nat \<Rightarrow> string" where
  "show_nat n =
     (if n < 10 then [char_of (48 + n)]
      else show_nat (n div 10) @ [char_of (48 + n mod 10)])"

definition py_str :: "int \<Rightarrow> string" where
  "py_str i = (if i < 0 then CHR ''-'' # show_nat (nat (- i)) else show_nat (nat i))"

section \<open>The regular expressions\<close>

text \<open>
  \<^verbatim>\<open>re.findall\<close> scans from left to right, tries the pattern at each position, and after a
  match goes on behind it. None of the patterns of the engineer can match in two ways from
  one position, so each is a deterministic scanner.
\<close>

text \<open>\<^verbatim>\<open>re.findall(r"\d+", s)\<close>: the maximal runs of digits.\<close>

function findall_digits :: "string \<Rightarrow> string list" where
  "findall_digits [] = []"
| "findall_digits (c # cs) =
     (if py_isdigit c
      then (c # takeWhile py_isdigit cs) # findall_digits (dropWhile py_isdigit cs)
      else findall_digits cs)"
  by pat_completeness auto
termination
  by (relation "measure length") (auto simp: length_dropWhile_le less_Suc_eq_le)

text \<open>\<^verbatim>\<open>re.findall(r"-?\d+", s)\<close>: the runs of digits, each with the minus sign before it.\<close>

function findall_ints :: "string \<Rightarrow> string list" where
  "findall_ints [] = []"
| "findall_ints (c # cs) =
     (if c = CHR ''-'' \<and> cs \<noteq> [] \<and> py_isdigit (hd cs)
      then (c # takeWhile py_isdigit cs) # findall_ints (dropWhile py_isdigit cs)
      else if py_isdigit c
      then (c # takeWhile py_isdigit cs) # findall_ints (dropWhile py_isdigit cs)
      else findall_ints cs)"
  by pat_completeness auto
termination
  by (relation "measure length") (auto simp: length_dropWhile_le less_Suc_eq_le)

text \<open>
  \<^verbatim>\<open>(.*?)```\<close> with \<^verbatim>\<open>re.DOTALL\<close>: the text up to the first closing fence, and the text
  behind that fence.
\<close>

fun find_close :: "string \<Rightarrow> (string \<times> string) option" where
  "find_close [] = None"
| "find_close (c # cs) =
     (if startswith (c # cs) ''```'' then Some ([], drop 3 (c # cs))
      else map_option (\<lambda>(body, rest). (c # body, rest)) (find_close cs))"

lemma find_close_length: "find_close s = Some (body, rest) \<Longrightarrow> length rest < length s"
  by (induction s arbitrary: body) (auto split: if_splits)

text \<open>
  \<^verbatim>\<open>re.findall(opening + r"(.*?)```", s, re.DOTALL)\<close> for a literal opening fence
  (\<^verbatim>\<open>```python\n\<close> or \<^verbatim>\<open>```\n\<close>).
\<close>

function findall_fenced :: "string \<Rightarrow> string \<Rightarrow> string list" where
  "findall_fenced fence [] = []"
| "findall_fenced fence (c # cs) =
     (if startswith (c # cs) fence
      then (case find_close (drop (length fence) (c # cs)) of
              Some (body, rest) \<Rightarrow> body # findall_fenced fence rest
            | None \<Rightarrow> findall_fenced fence cs)
      else findall_fenced fence cs)"
  by pat_completeness auto
termination
  by (relation "measure (\<lambda>(fence, s). length s)")
     (auto dest!: find_close_length simp: less_Suc_eq_le intro: le_trans [OF less_imp_le])

text \<open>
  One match of \<^verbatim>\<open>def\s+(\w+)\s*\([^)]*\):\<close> at the start of the text: the group (the
  function's name) and the text behind the match. The classes \<^verbatim>\<open>\s\<close> and \<^verbatim>\<open>\w\<close>
  are disjoint and each greedy run must be followed by a character outside its class, so
  the longest run is the only one that can match.
\<close>

definition match_params :: "string \<Rightarrow> string option" where
  "match_params s =
     (case s of
        [] \<Rightarrow> None
      | p # s4 \<Rightarrow>
          if p \<noteq> CHR ''('' then None
          else (case dropWhile (\<lambda>c. c \<noteq> CHR '')'') s4 of
                  q # r # rest \<Rightarrow> if q = CHR '')'' \<and> r = CHR '':'' then Some rest else None
                | _ \<Rightarrow> None))"

definition match_def :: "string \<Rightarrow> (string \<times> string) option" where
  "match_def s =
     (if \<not> startswith s ''def'' then None
      else
        let s1 = drop 3 s;
            s2 = dropWhile py_isspace s1;
            name = takeWhile py_isword s2;
            s3 = dropWhile py_isspace (dropWhile py_isword s2)
        in if takeWhile py_isspace s1 = [] \<or> name = [] then None
           else map_option (Pair name) (match_params s3))"

lemma match_params_length:
  assumes "match_params s = Some rest"
  shows "length rest < length s"
proof (cases s)
  case Nil
  with assms show ?thesis by (simp add: match_params_def)
next
  case (Cons p s4)
  with assms obtain q r where d: "dropWhile (\<lambda>c. c \<noteq> CHR '')'') s4 = q # r # rest"
    by (auto simp only: match_params_def list.case split: if_splits list.splits)
  have "length rest < length (dropWhile (\<lambda>c. c \<noteq> CHR '')'') s4)"
    by (simp add: d)
  also have "\<dots> \<le> length s4"
    by (rule length_dropWhile_le)
  finally show ?thesis
    by (simp add: Cons)
qed

lemma match_def_length:
  assumes "match_def s = Some (name, rest)"
  shows "length rest < length s"
proof -
  define s2 where "s2 = dropWhile py_isspace (drop 3 s)"
  define s3 where "s3 = dropWhile py_isspace (dropWhile py_isword s2)"
  from assms have "match_params s3 = Some rest"
    by (auto simp only: match_def_def Let_def s2_def s3_def split: if_splits)
  then have "length rest < length s3"
    by (rule match_params_length)
  also have "\<dots> \<le> length (dropWhile py_isword s2)"
    unfolding s3_def by (rule length_dropWhile_le)
  also have "\<dots> \<le> length s2"
    by (rule length_dropWhile_le)
  also have "\<dots> \<le> length (drop 3 s)"
    unfolding s2_def by (rule length_dropWhile_le)
  also have "\<dots> \<le> length s"
    by simp
  finally show ?thesis .
qed

text \<open>\<^verbatim>\<open>re.findall(r"def\s+(\w+)\s*\([^)]*\):", code)\<close>: the names, in order.\<close>

function findall_functions :: "string \<Rightarrow> string list" where
  "findall_functions [] = []"
| "findall_functions (c # cs) =
     (case match_def (c # cs) of
        Some (name, rest) \<Rightarrow> name # findall_functions rest
      | None \<Rightarrow> findall_functions cs)"
  by pat_completeness auto
termination
  by (relation "measure length") (auto dest!: match_def_length)

section \<open>\<^verbatim>\<open>Engineer.extract_code\<close>\<close>

definition start_keywords :: "string list" where
  "start_keywords = [''import '', ''from '', ''def '', ''class '']"

definition line_keywords :: "string list" where
  "line_keywords =
     [''#'', ''import'', ''from'', ''def'', ''class'', ''if'', ''for'', ''while'', ''return'',
      ''print'', ''try'', ''except'', ''elif'', ''else'']"

text \<open>
  The loop over the lines, with its two variables \<^verbatim>\<open>in_code\<close> and \<^verbatim>\<open>code_lines\<close>; the
  \<^verbatim>\<open>break\<close> returns the lines collected so far.
\<close>

fun collect_lines :: "bool \<Rightarrow> string list \<Rightarrow> string list \<Rightarrow> string list" where
  "collect_lines in_code code_lines [] = code_lines"
| "collect_lines in_code code_lines (line # rest) =
     (let stripped = py_strip line;
          in_code' = (in_code \<or> startswith_any stripped start_keywords)
      in if in_code'
         then (if stripped \<noteq> [] \<and> \<not> startswith_any stripped line_keywords
                  \<and> \<not> endswith stripped '':''
               then code_lines
               else collect_lines in_code' (code_lines @ [line]) rest)
         else collect_lines in_code' code_lines rest)"

definition extract_code :: "string \<Rightarrow> string option" where
  "extract_code solution =
     (let matches = findall_fenced (''```python'' @ [NL]) solution in
      if matches \<noteq> [] then Some (max_by_len matches)
      else
        let matches2 = findall_fenced (''```'' @ [NL]) solution;
            code = max_by_len matches2
        in if matches2 \<noteq> [] \<and>
              (contains ''def '' code \<or> contains ''import '' code \<or> contains ''print'' code)
           then Some code
           else
             let code_lines = collect_lines False [] (split_nl solution)
             in if code_lines \<noteq> [] then Some (join_nl code_lines) else None)"

section \<open>\<^verbatim>\<open>Engineer.test_solution\<close>\<close>

text \<open>
  A proposal is a dictionary; the engineer reads its keys \<^verbatim>\<open>goal\<close> and \<^verbatim>\<open>solution\<close>.
  The result dictionary has five keys, fixed when it is created.
\<close>

record proposal =
  goal :: string
  solution :: string

record test_result =
  success :: bool
  "output" :: "string option"
  error :: "string option"
  issues :: "string list"
  execution_time :: "real option"

record engineer =
  test_results :: "test_result list"

text \<open>
  What the call does not decide itself comes from the world: whether the temporary file can
  be created, written and closed, what \<^verbatim>\<open>ENGINEER_TIMEOUT\<close> holds and what \<^verbatim>\<open>int\<close> makes
  of it, how the child process ends, the two readings of \<^verbatim>\<open>time.perf_counter\<close> (floats,
  taken as reals), and whether \<^verbatim>\<open>os.unlink\<close> succeeds. An exception is its class name
  (\<^verbatim>\<open>type(e).__name__\<close>) and its message (\<^verbatim>\<open>str(e)\<close>); only subclasses of
  \<^verbatim>\<open>Exception\<close> are modelled, and logging has no effect. The files that exist are a set of
  paths, changed by this call only.
\<close>

datatype exn = Exn (exn_name: string) (exn_str: string)

datatype run_outcome =
    Completed int string string
  | TimeoutExpired
  | RunRaised exn

record world =
  tempfile_create :: "exn + string"
  write_raises :: "exn option"
  close_raises :: "exn option"
  getenv_timeout :: "string option"
  int_of_str :: "string \<Rightarrow> exn + int"
  subprocess_run :: "string \<Rightarrow> int \<Rightarrow> run_outcome"
  perf_counter_start :: real
  perf_counter_end :: real
  unlink_raises :: "exn option"

subsection \<open>The main shim\<close>

definition name_hints :: "string list" where
  "name_hints = [''main'', ''find'', ''get'', ''calculate'', ''solve'']"

text \<open>The \<^verbatim>\<open>for func in functions\<close> loop, left by \<^verbatim>\<open>break\<close> at the first hit.\<close>

fun select_loop :: "string list \<Rightarrow> string option" where
  "select_loop [] = None"
| "select_loop (func # rest) =
     (if list_ex (\<lambda>k. contains k (py_lower func)) name_hints then Some func
      else select_loop rest)"

definition select_main_func :: "string list \<Rightarrow> string option" where
  "select_main_func functions =
     (if functions = [] then None
      else (case select_loop functions of
              None \<Rightarrow> Some (last functions)
            | Some func \<Rightarrow> if func = [] then Some (last functions) else Some func))"

definition epilogue :: "string \<Rightarrow> string \<Rightarrow> string" where
  "epilogue func args =
     [NL, NL] @ ''if __name__ == '' @ [DQ] @ ''__main__'' @ [DQ] @ '':'' @ [NL] @
     ''    result = '' @ func @ ''('' @ args @ '')'' @ [NL] @
     ''    print(result)'' @ [NL]"

definition add_main_shim :: "string \<Rightarrow> string \<Rightarrow> string" where
  "add_main_shim code g =
     (let has_main = (contains ''__main__'' code \<or> contains ''print('' code) in
      if has_main then code
      else
        let goal_lower = py_lower g;
            functions = findall_functions code
        in (case select_main_func functions of
              None \<Rightarrow> code
            | Some func \<Rightarrow>
                if func = [] then code
                else
                  let numbers = findall_digits goal_lower in
                  if contains ''prime'' goal_lower \<and> numbers \<noteq> []
                  then code @ epilogue func (hd numbers)
                  else if contains ''prime'' goal_lower \<and> contains ''first'' goal_lower
                  then code @ epilogue func ''40''
                  else code @ epilogue func []))"

subsection \<open>Execution\<close>

definition unexpected :: "exn \<Rightarrow> test_result \<Rightarrow> test_result" where
  "unexpected e result =
     result\<lparr>error := Some (exn_str e),
            issues := issues result @ [''Unexpected error: '' @ exn_name e]\<rparr>"

text \<open>The \<^verbatim>\<open>finally\<close> block, once \<^verbatim>\<open>temp_file\<close> holds the name.\<close>

definition cleanup :: "world \<Rightarrow> string \<Rightarrow> string set \<Rightarrow> string set" where
  "cleanup w temp_file files =
     (if temp_file \<noteq> [] \<and> temp_file \<in> files
      then (case unlink_raises w of None \<Rightarrow> files - {temp_file} | Some e \<Rightarrow> files)
      else files)"

text \<open>
  The \<^verbatim>\<open>try\<close> statement. Until \<^verbatim>\<open>temp_file = f.name\<close> has run, \<^verbatim>\<open>temp_file\<close> is
  \<^verbatim>\<open>None\<close> and the \<^verbatim>\<open>finally\<close> block does nothing.
\<close>

definition execute :: "world \<Rightarrow> string set \<Rightarrow> string \<Rightarrow> test_result \<Rightarrow> test_result \<times> string set" where
  "execute w files code result =
     (case tempfile_create w of
        Inl e \<Rightarrow> (unexpected e result, files)
      | Inr name \<Rightarrow>
          let files1 = insert name files in
          (case write_raises w of
             Some e \<Rightarrow> (unexpected e result, files1)
           | None \<Rightarrow>
               (case close_raises w of
                  Some e \<Rightarrow> (unexpected e result, cleanup w name files1)
                | None \<Rightarrow>
                    (case int_of_str w (case getenv_timeout w of None \<Rightarrow> ''30'' | Some v \<Rightarrow> v) of
                       Inl e \<Rightarrow> (unexpected e result, cleanup w name files1)
                     | Inr t \<Rightarrow>
                         (case subprocess_run w code t of
                            Completed returncode out err \<Rightarrow>
                              let elapsed = perf_counter_end w - perf_counter_start w;
                                  result1 = result\<lparr>execution_time := Some elapsed\<rparr>
                              in (if returncode = 0
                                  then result1\<lparr>success := True, output := Some out\<rparr>
                                  else result1\<lparr>error := Some err,
                                         issues := issues result1 @ [''Code execution failed'']\<rparr>,
                                  cleanup w name files1)
                          | TimeoutExpired \<Rightarrow>
                              (result\<lparr>error := Some ''Code execution timed out'',
                                      issues := issues result @ [''TimeoutExpired'']\<rparr>,
                               cleanup w name files1)
                          | RunRaised e \<Rightarrow> (unexpected e result, cleanup w name files1))))))"

definition new_result :: test_result where
  "new_result = \<lparr>success = False, output = None, error = None, issues = [], execution_time = None\<rparr>"

text \<open>
  \<^verbatim>\<open>not code\<close> holds for \<^verbatim>\<open>None\<close> and for the empty string. The call returns the result,
  the engineer with its history, and the files.
\<close>

definition test_solution ::
  "world \<Rightarrow> engineer \<Rightarrow> string set \<Rightarrow> proposal \<Rightarrow> test_result \<times> engineer \<times> string set" where
  "test_solution w self files p =
     (case extract_code (solution p) of
        None \<Rightarrow>
          (new_result\<lparr>error := Some ''No executable code found in solution'',
                      issues := issues new_result @ [''Solution must include Python code'']\<rparr>,
           self, files)
      | Some code \<Rightarrow>
          if code = []
          then (new_result\<lparr>error := Some ''No executable code found in solution'',
                           issues := issues new_result @ [''Solution must include Python code'']\<rparr>,
                self, files)
          else
            (case execute w files (add_main_shim code (goal p)) new_result of
               (result, files') \<Rightarrow>
                 (result, self\<lparr>test_results := test_results self @ [result]\<rparr>, files')))"

section \<open>Example runs\<close>

text \<open>
  Concrete worlds and proposals on which the theorems below are instantiated: a child that
  prints and exits with 0, one that exits with 1, one that runs into the deadline, and a
  world whose \<^verbatim>\<open>os.unlink\<close> fails.
\<close>

definition ok_world :: world where
  "ok_world =
     \<lparr>tempfile_create = Inr ''/tmp/tmpk3x9.py'', write_raises = None, close_raises = None,
      getenv_timeout = None,
      int_of_str = (\<lambda>s. if s = ''30'' then Inr 30
                         else Inl (Exn ''ValueError'' ''invalid literal for int()'')),
      subprocess_run = (\<lambda>code t. Completed 0 (''2'' @ [NL]) []),
      perf_counter_start = 10, perf_counter_end = 11, unlink_raises = None\<rparr>"

definition crash_world :: world where
  "crash_world = ok_world\<lparr>subprocess_run := (\<lambda>code t. Completed 1 [] ''NameError'')\<rparr>"

definition timeout_world :: world where
  "timeout_world = ok_world\<lparr>subprocess_run := (\<lambda>code t. TimeoutExpired)\<rparr>"

definition locked_world :: world where
  "locked_world = ok_world\<lparr>unlink_raises := Some (Exn ''PermissionError'' ''file in use'')\<rparr>"

definition print_proposal :: proposal where
  "print_proposal =
     \<lparr>goal = ''add one and one'',
      solution = ''```python'' @ [NL] @ ''print(1+1)'' @ [NL] @ ''```''\<rparr>"

definition prose_proposal :: proposal where
  "prose_proposal = \<lparr>goal = ''add one and one'', solution = ''The answer is 2.''\<rparr>"

definition no_engineer :: engineer where
  "no_engineer = \<lparr>test_results = []\<rparr>"

lemma extract_print_proposal:
  "extract_code (solution print_proposal) = Some (''print(1+1)'' @ [NL])"
  by (simp add: print_proposal_def extract_code_def max_by_len_def NL_def)

lemma extract_prose_proposal: "extract_code (solution prose_proposal) = None"
  by (simp add: prose_proposal_def extract_code_def NL_def py_strip_def py_isspace_def
        startswith_any_def start_keywords_def)

lemma shim_print_proposal:
  "add_main_shim (''print(1+1)'' @ [NL]) g = ''print(1+1)'' @ [NL]"
  by (simp add: add_main_shim_def)

lemmas example_worlds = ok_world_def crash_world_def timeout_world_def locked_world_def

section \<open>Properties of \<^verbatim>\<open>test_solution\<close>\<close>

lemma test_solution_extracted:
  assumes "extract_code (solution p) = Some code" and "code \<noteq> []"
  shows "test_solution w self files p =
           (case execute w files (add_main_shim code (goal p)) new_result of
              (result, files') \<Rightarrow>
                (result, self\<lparr>test_results := test_results self @ [result]\<rparr>, files'))"
  using assms by (simp add: test_solution_def)

text \<open>Once the file is written and closed and the timeout is read, the child decides.\<close>

lemma execute_spawned:
  assumes "tempfile_create w = Inr name" and "write_raises w = None" and "close_raises w = None"
    and "int_of_str w (case getenv_timeout w of None \<Rightarrow> ''30'' | Some v \<Rightarrow> v) = Inr t"
  shows "execute w files code r =
           ((case subprocess_run w code t of
               Completed returncode out err \<Rightarrow>
                 if returncode = 0
                 then r\<lparr>execution_time := Some (perf_counter_end w - perf_counter_start w),
                        success := True, output := Some out\<rparr>
                 else r\<lparr>execution_time := Some (perf_counter_end w - perf_counter_start w),
                        error := Some err, issues := issues r @ [''Code execution failed'']\<rparr>
             | TimeoutExpired \<Rightarrow>
                 r\<lparr>error := Some ''Code execution timed out'',
                   issues := issues r @ [''TimeoutExpired'']\<rparr>
             | RunRaised e \<Rightarrow> unexpected e r),
            cleanup w name (insert name files))"
  using assms unfolding execute_def Let_def
  by (simp split: run_outcome.split)

text \<open>The four shapes a result of the \<^verbatim>\<open>try\<close> statement can have.\<close>

lemma execute_cases:
  "(\<exists>e. fst (execute w files code r) = unexpected e r) \<or>
   (\<exists>out. fst (execute w files code r) =
       r\<lparr>execution_time := Some (perf_counter_end w - perf_counter_start w),
         success := True, output := Some out\<rparr>) \<or>
   (\<exists>err. fst (execute w files code r) =
       r\<lparr>execution_time := Some (perf_counter_end w - perf_counter_start w),
         error := Some err, issues := issues r @ [''Code execution failed'']\<rparr>) \<or>
   fst (execute w files code r) =
       r\<lparr>error := Some ''Code execution timed out'', issues := issues r @ [''TimeoutExpired'']\<rparr>"
  unfolding execute_def Let_def
  by (simp split: sum.split option.split run_outcome.split) blast

text \<open>
  C1. Every result that \<^verbatim>\<open>test_solution\<close> returns, for every proposal, engineer, set of
  files and world (so on every path: no code found, exit code 0, another exit code,
  timeout, failure of the file, of the timeout setting or of the spawn), satisfies: if
  \<^verbatim>\<open>success\<close> is true then \<^verbatim>\<open>output\<close> is set and \<^verbatim>\<open>error\<close> is \<^verbatim>\<open>None\<close>; if
  \<^verbatim>\<open>success\<close> is false then \<^verbatim>\<open>error\<close> is set.
\<close>

theorem test_solution_result_invariant:
  "let r = fst (test_solution w self files p) in
     (success r \<longrightarrow> output r \<noteq> None \<and> error r = None) \<and> (\<not> success r \<longrightarrow> error r \<noteq> None)"
proof (cases "extract_code (solution p)")
  case None
  then show ?thesis
    by (simp add: test_solution_def new_result_def)
next
  case (Some code)
  show ?thesis
  proof (cases "code = []")
    case True
    with Some show ?thesis
      by (simp add: test_solution_def new_result_def)
  next
    case False
    have r: "fst (test_solution w self files p) =
               fst (execute w files (add_main_shim code (goal p)) new_result)"
      using Some False by (simp add: test_solution_def split: prod.split)
    show ?thesis
      using execute_cases [of w files "add_main_shim code (goal p)" new_result]
      unfolding r Let_def
      by (elim disjE exE) (simp_all add: unexpected_def new_result_def)
  qed
qed

theorem test_solution_result_invariant_witness:
  "success (fst (test_solution ok_world no_engineer {} print_proposal)) \<and>
   output (fst (test_solution ok_world no_engineer {} print_proposal)) \<noteq> None \<and>
   error (fst (test_solution ok_world no_engineer {} print_proposal)) = None \<and>
   \<not> success (fst (test_solution ok_world no_engineer {} prose_proposal)) \<and>
   error (fst (test_solution ok_world no_engineer {} prose_proposal)) \<noteq> None"
  using test_solution_result_invariant [of ok_world no_engineer "{}" print_proposal]
    test_solution_result_invariant [of ok_world no_engineer "{}" prose_proposal]
  by (simp add: test_solution_def extract_print_proposal extract_prose_proposal
        shim_print_proposal execute_def ok_world_def new_result_def Let_def)

text \<open>
  C3. If the child process exceeds the configured timeout (\<^verbatim>\<open>subprocess.run\<close> raises
  \<^verbatim>\<open>TimeoutExpired\<close>), \<^verbatim>\<open>test_solution\<close> returns a result with \<^verbatim>\<open>success\<close> false,
  \<^verbatim>\<open>error\<close> equal to "Code execution timed out", and "TimeoutExpired" among its issues.
\<close>

theorem test_solution_timeout:
  assumes "extract_code (solution p) = Some code" and "code \<noteq> []"
    and "tempfile_create w = Inr name" and "write_raises w = None" and "close_raises w = None"
    and "int_of_str w (case getenv_timeout w of None \<Rightarrow> ''30'' | Some v \<Rightarrow> v) = Inr t"
    and "subprocess_run w (add_main_shim code (goal p)) t = TimeoutExpired"
  shows "\<not> success (fst (test_solution w self files p)) \<and>
         error (fst (test_solution w self files p)) = Some ''Code execution timed out'' \<and>
         ''TimeoutExpired'' \<in> set (issues (fst (test_solution w self files p)))"
  using assms(7)
  by (simp add: test_solution_extracted [OF assms(1,2)] execute_spawned [OF assms(3-6)]
        new_result_def)

theorem test_solution_timeout_witness:
  "\<not> success (fst (test_solution timeout_world no_engineer {} print_proposal)) \<and>
   error (fst (test_solution timeout_world no_engineer {} print_proposal)) =
     Some ''Code execution timed out'' \<and>
   ''TimeoutExpired'' \<in> set (issues (fst (test_solution timeout_world no_engineer {} print_proposal)))"
  by (rule test_solution_timeout [where code = "''print(1+1)'' @ [NL]"
        and name = "''/tmp/tmpk3x9.py''" and t = 30])
     (simp_all add: extract_print_proposal example_worlds)

text \<open>
  C4 as stated fails: the statement \<^verbatim>\<open>result["execution_time"] = elapsed\<close> stands behind
  the call of \<^verbatim>\<open>subprocess.run\<close> inside the \<^verbatim>\<open>try\<close> block, and neither handler sets
  the key. In the run below the child was spawned and ran into the deadline, and
  \<^verbatim>\<open>execution_time\<close> is still \<^verbatim>\<open>None\<close>.
\<close>

theorem execution_time_timeout_counterexample:
  "extract_code (solution print_proposal) = Some (''print(1+1)'' @ [NL]) \<and>
   subprocess_run timeout_world (add_main_shim (''print(1+1)'' @ [NL]) (goal print_proposal)) 30
     = TimeoutExpired \<and>
   \<not> success (fst (test_solution timeout_world no_engineer {} print_proposal)) \<and>
   execution_time (fst (test_solution timeout_world no_engineer {} print_proposal)) = None"
  by (simp add: test_solution_def extract_print_proposal shim_print_proposal execute_def
        example_worlds new_result_def Let_def)

text \<open>
  C4, amended. For every run of \<^verbatim>\<open>test_solution\<close> that reaches the spawn call (code
  extracted, file written and closed, timeout read), \<^verbatim>\<open>execution_time\<close> is set, to the
  difference of the two clock readings around the call, exactly when \<^verbatim>\<open>subprocess.run\<close>
  returns, with exit code zero or not; when it raises \<^verbatim>\<open>TimeoutExpired\<close> or another
  exception, \<^verbatim>\<open>execution_time\<close> stays \<^verbatim>\<open>None\<close>.
\<close>

theorem execution_time_recorded:
  assumes "extract_code (solution p) = Some code" and "code \<noteq> []"
    and "tempfile_create w = Inr name" and "write_raises w = None" and "close_raises w = None"
    and "int_of_str w (case getenv_timeout w of None \<Rightarrow> ''30'' | Some v \<Rightarrow> v) = Inr t"
  shows "execution_time (fst (test_solution w self files p)) =
           (case subprocess_run w (add_main_shim code (goal p)) t of
              Completed returncode out err \<Rightarrow> Some (perf_counter_end w - perf_counter_start w)
            | TimeoutExpired \<Rightarrow> None
            | RunRaised e \<Rightarrow> None)"
  by (simp add: test_solution_extracted [OF assms(1,2)] execute_spawned [OF assms(3-6)]
        new_result_def unexpected_def split: run_outcome.split)

theorem execution_time_recorded_witness:
  "\<not> success (fst (test_solution crash_world no_engineer {} print_proposal)) \<and>
   execution_time (fst (test_solution crash_world no_engineer {} print_proposal)) = Some 1"
proof -
  have "execution_time (fst (test_solution crash_world no_engineer {} print_proposal)) =
          (case subprocess_run crash_world
                  (add_main_shim (''print(1+1)'' @ [NL]) (goal print_proposal)) 30 of
             Completed returncode out err \<Rightarrow>
               Some (perf_counter_end crash_world - perf_counter_start crash_world)
           | TimeoutExpired \<Rightarrow> None
           | RunRaised e \<Rightarrow> None)"
    by (rule execution_time_recorded [where name = "''/tmp/tmpk3x9.py''"])
       (simp_all add: extract_print_proposal example_worlds)
  then show ?thesis
    by (simp add: test_solution_def extract_print_proposal shim_print_proposal execute_def
          example_worlds new_result_def Let_def)
qed

text \<open>
  C5 as stated fails: a failing \<^verbatim>\<open>os.unlink\<close> is caught and ignored
  (\<^verbatim>\<open>except Exception: pass\<close>), and the call returns with the file still there.
\<close>

theorem temp_file_remains_counterexample:
  "tempfile_create locked_world = Inr ''/tmp/tmpk3x9.py'' \<and>
   ''/tmp/tmpk3x9.py'' \<in> snd (snd (test_solution locked_world no_engineer {} print_proposal))"
  by (simp add: test_solution_def extract_print_proposal shim_print_proposal execute_def
        example_worlds new_result_def cleanup_def Let_def)

text \<open>
  C5, amended. For every call of \<^verbatim>\<open>test_solution\<close> that creates the temporary file
  (under a non-empty name) and writes the source to it, the file no longer exists when the
  call returns, on every later path (failure on closing the file, unreadable timeout,
  exit code zero or not, timeout, exception of the spawn), provided \<^verbatim>\<open>os.unlink\<close> itself
  does not fail.
\<close>

theorem temp_file_removed:
  assumes "extract_code (solution p) = Some code" and "code \<noteq> []"
    and "tempfile_create w = Inr name" and "name \<noteq> []"
    and "write_raises w = None" and "unlink_raises w = None"
  shows "name \<notin> snd (snd (test_solution w self files p))"
  using assms(3-6)
  unfolding test_solution_extracted [OF assms(1,2)] execute_def Let_def cleanup_def
  by (simp split: option.split sum.split run_outcome.split prod.split)

theorem temp_file_removed_witness:
  "''/tmp/tmpk3x9.py'' \<notin> snd (snd (test_solution crash_world no_engineer {} print_proposal))"
  by (rule temp_file_removed [where code = "''print(1+1)'' @ [NL]"])
     (simp_all add: extract_print_proposal example_worlds)

text \<open>
  C10. \<^verbatim>\<open>test_solution\<close> appends the returned result to \<^verbatim>\<open>self.test_results\<close> exactly
  when code was extracted (\<^verbatim>\<open>not code\<close> is false: the extraction gave a non-empty
  string). When no code is extracted, the failure result is returned and the engineer is
  unchanged; on every path where code was extracted, whatever the world does, the history
  is the old one followed by the returned result.
\<close>

theorem test_solution_history:
  "case test_solution w self files p of
     (r, self', files') \<Rightarrow>
       (case extract_code (solution p) of
          None \<Rightarrow>
            self' = self \<and> \<not> success r \<and> error r = Some ''No executable code found in solution''
        | Some code \<Rightarrow>
            if code = []
            then self' = self \<and> \<not> success r \<and>
                 error r = Some ''No executable code found in solution''
            else test_results self' = test_results self @ [r])"
  by (auto simp: test_solution_def new_result_def split: option.splits prod.splits)

theorem test_solution_history_witness:
  "test_results (fst (snd (test_solution ok_world no_engineer {} prose_proposal))) = [] \<and>
   test_results (fst (snd (test_solution timeout_world no_engineer {} print_proposal))) =
     [fst (test_solution timeout_world no_engineer {} print_proposal)]"
  using test_solution_history [where w = ok_world and self = no_engineer and files = "{}"
        and p = prose_proposal]
    test_solution_history [where w = timeout_world and self = no_engineer and files = "{}"
        and p = print_proposal]
  by (simp add: extract_prose_proposal extract_print_proposal no_engineer_def NL_def
        split: prod.splits)

section \<open>The synthesized entry point\<close>

lemma findall_functions_nonempty_names:
  "name \<in> set (findall_functions s) \<Longrightarrow> name \<noteq> []"
proof (induction s rule: findall_functions.induct)
  case 1
  then show ?case by simp
next
  case (2 c cs)
  show ?case
  proof (cases "match_def (c # cs)")
    case None
    with 2 show ?thesis by simp
  next
    case (Some a)
    obtain nm rest where a: "a = (nm, rest)" by (cases a)
    have "nm \<noteq> []"
      using Some unfolding a match_def_def Let_def
      by (auto split: if_splits)
    with 2 Some a show ?thesis by auto
  qed
qed

lemma select_loop_member: "select_loop fs = Some f \<Longrightarrow> f \<in> set fs"
  by (induction fs) (auto split: if_splits)

lemma select_main_func_member:
  assumes "functions \<noteq> []"
  shows "\<exists>func. select_main_func functions = Some func \<and> func \<in> set functions"
  using assms
  by (auto simp: select_main_func_def dest: select_loop_member split: option.splits)

text \<open>
  C7. When the entry point is synthesized (the extracted code contains neither
  \<^verbatim>\<open>__main__\<close> nor \<^verbatim>\<open>print(\<close>, and the pattern finds at least one function definition),
  one of the functions found is selected and the code is extended by an epilogue whose
  argument depends on the goal only, read in lower case as the code does: the goal's first
  run of digits if the goal contains "prime" and a run of digits; else the fixed 40 if it
  contains "prime" and "first"; else no argument. In every case the epilogue assigns the
  call to \<^verbatim>\<open>result\<close> and prints it.
\<close>

theorem shim_argument:
  assumes "\<not> contains ''__main__'' code" and "\<not> contains ''print('' code"
    and "findall_functions code \<noteq> []"
  shows "\<exists>func. select_main_func (findall_functions code) = Some func \<and>
           func \<in> set (findall_functions code) \<and>
           add_main_shim code g =
             code @ [NL, NL] @ ''if __name__ == '' @ [DQ] @ ''__main__'' @ [DQ] @ '':'' @ [NL] @
             ''    result = '' @ func @ ''('' @
             (if contains ''prime'' (py_lower g) \<and> findall_digits (py_lower g) \<noteq> []
              then hd (findall_digits (py_lower g))
              else if contains ''prime'' (py_lower g) \<and> contains ''first'' (py_lower g)
              then ''40'' else []) @
             '')'' @ [NL] @ ''    print(result)'' @ [NL]"
proof -
  from select_main_func_member [OF assms(3)] obtain func
    where f: "select_main_func (findall_functions code) = Some func"
      and m: "func \<in> set (findall_functions code)"
    by blast
  from m have ne: "func \<noteq> []"
    by (rule findall_functions_nonempty_names)
  show ?thesis
    using assms(1,2) f m ne
    by (simp add: add_main_shim_def epilogue_def Let_def)
qed

definition primes_code :: string where
  "primes_code = ''def first_primes(n):'' @ [NL] @ ''    return []'' @ [NL]"

lemma findall_functions_primes_code: "findall_functions primes_code = [''first_primes'']"
  by (simp add: primes_code_def match_def_def match_params_def NL_def py_isspace_def py_isword_def Let_def)

theorem shim_argument_witness:
  "add_main_shim primes_code ''Find the first 10 PRIME numbers'' =
     primes_code @ [NL, NL] @ ''if __name__ == '' @ [DQ] @ ''__main__'' @ [DQ] @ '':'' @ [NL] @
       ''    result = first_primes(10)'' @ [NL] @ ''    print(result)'' @ [NL]"
proof -
  have h1: "\<not> contains ''__main__'' primes_code"
    by (simp add: primes_code_def NL_def)
  have h2: "\<not> contains ''print('' primes_code"
    by (simp add: primes_code_def NL_def)
  have h3: "findall_functions primes_code \<noteq> []"
    by (simp add: findall_functions_primes_code)
  have g: "py_lower ''Find the first 10 PRIME numbers'' = ''find the first 10 prime numbers''"
    by code_simp
  have d: "findall_digits ''find the first 10 prime numbers'' = [''10'']"
    by (simp add: py_isdigit_def)
  show ?thesis
    using shim_argument [OF h1 h2 h3, of "''Find the first 10 PRIME numbers''"]
    unfolding g d findall_functions_primes_code
    by (simp add: select_main_func_def name_hints_def py_lower_def py_lower_char_def char_of_def)
qed

section \<open>The reference primes\<close>

text \<open>
  The loop of \<^verbatim>\<open>_is_prime\<close> on its variables \<^verbatim>\<open>f\<close> and \<^verbatim>\<open>step\<close>. Two rounds of it
  add 6 to \<^verbatim>\<open>f\<close> whatever the step is, which is why it ends on every input.
\<close>

lemma square_le_imp_le: "f * f \<le> n \<Longrightarrow> f \<le> (n::int)"
proof (cases "f \<le> 0")
  case True
  assume "f * f \<le> n"
  moreover have "0 \<le> f * f" by simp
  ultimately show ?thesis using True by linarith
next
  case False
  assume a: "f * f \<le> n"
  from False have "1 * f \<le> f * f"
    by (intro mult_right_mono) auto
  with a show ?thesis by simp
qed

function is_prime_loop :: "int \<Rightarrow> int \<Rightarrow> int \<Rightarrow> bool" where
  "is_prime_loop n f step =
     (if f * f \<le> n
      then (if n mod f = 0 then False else is_prime_loop n (f + step) (6 - step))
      else True)"
  by pat_completeness auto
termination
proof (relation "measure (\<lambda>(n, f, step). nat (2 * n + max step (6 - step) + 1 - (2 * f + step)))",
       goal_cases)
  case 1
  show ?case by simp
next
  case (2 n f step)
  from 2(1) have le: "f \<le> n"
    by (rule square_le_imp_le)
  have m: "max (6 - step) (6 - (6 - step)) = max step (6 - step)"
    by (simp add: max_def)
  have "nat (2 * n + max step (6 - step) + 1 - (2 * (f + step) + (6 - step))) <
        nat (2 * n + max step (6 - step) + 1 - (2 * f + step))"
    using le by (cases "step \<le> 6 - step") (simp_all add: max_def)
  then show ?case
    by (simp only: in_measure prod.case m)
qed

declare is_prime_loop.simps [simp del]

definition is_prime :: "int \<Rightarrow> bool" where
  "is_prime n =
     (if n < 2 then False
      else if n = 2 \<or> n = 3 then True
      else if n mod 2 = 0 \<or> n mod 3 = 0 then False
      else is_prime_loop n 5 2)"

text \<open>
  What a prime number is, independently of the code: an integer from 2 on that no
  integer between 2 and itself divides.
\<close>

definition prime_number :: "int \<Rightarrow> bool" where
  "prime_number p = (2 \<le> p \<and> (\<forall>d \<in> {2..<p}. \<not> d dvd p))"

text \<open>A proper factor of \<open>n\<close> has a partner; the smaller of the two lies below the root.\<close>

lemma small_factor:
  assumes "2 \<le> d" and "d < n" and "d dvd n" and "n < f * f" and "0 < (f::int)"
  shows "\<exists>e. 2 \<le> e \<and> e < f \<and> e dvd n"
proof -
  from assms(3) obtain k where k: "n = d * k" ..
  have k2: "2 \<le> k"
  proof (rule ccontr)
    assume "\<not> 2 \<le> k"
    then have "k \<le> 1" by simp
    then have "d * k \<le> d * 1"
      using assms(1) by (intro mult_left_mono) auto
    with k assms(2) show False by simp
  qed
  show ?thesis
  proof (cases "d \<le> k")
    case True
    have "d < f"
    proof (rule ccontr)
      assume "\<not> d < f"
      then have "f \<le> d" by simp
      then have "f * f \<le> d * d"
        using assms(5) by (intro mult_mono) auto
      also have "\<dots> \<le> d * k"
        using True assms(1) by (intro mult_left_mono) auto
      finally show False using assms(4) k by simp
    qed
    with assms(1,3) show ?thesis by blast
  next
    case False
    have "k < f"
    proof (rule ccontr)
      assume "\<not> k < f"
      then have "f \<le> k" by simp
      then have "f * f \<le> k * k"
        using assms(5) by (intro mult_mono) auto
      also have "\<dots> \<le> d * k"
        using False k2 by (intro mult_right_mono) auto
      finally show False using assms(4) k by simp
    qed
    moreover have "k dvd n" using k by simp
    ultimately show ?thesis using k2 by blast
  qed
qed

text \<open>
  The loop keeps \<^verbatim>\<open>f\<close> on the numbers 5, 7, 11, 13, ... and has tried every candidate
  below it: what it steps over is a multiple of 2 or of 3.
\<close>

lemma is_prime_loop_correct:
  assumes "5 \<le> f" and "(f mod 6 = 5 \<and> step = 2) \<or> (f mod 6 = 1 \<and> step = 4)"
    and "\<not> 2 dvd n" and "\<not> 3 dvd n" and "\<forall>d. 2 \<le> d \<and> d < f \<longrightarrow> \<not> d dvd n"
  shows "is_prime_loop n f step = (\<forall>d. 2 \<le> d \<and> d < n \<longrightarrow> \<not> d dvd n)"
  using assms
proof (induction n f step rule: is_prime_loop.induct)
  case (1 n f step)
  show ?case
  proof (cases "f * f \<le> n")
    case False
    then have "is_prime_loop n f step"
      by (simp add: is_prime_loop.simps)
    moreover have "\<not> d dvd n" if "2 \<le> d" "d < n" for d
    proof
      assume "d dvd n"
      with that False "1.prems"(1) obtain e where "2 \<le> e" "e < f" "e dvd n"
        using small_factor [of d n f] by auto
      with "1.prems"(5) show False by blast
    qed
    ultimately show ?thesis by blast
  next
    case True
    have fn: "f < n"
    proof -
      have "f * 1 < f * f"
        using "1.prems"(1) by (intro mult_strict_left_mono) auto
      with True show ?thesis by simp
    qed
    show ?thesis
    proof (cases "n mod f = 0")
      case True
      then have "f dvd n" by auto
      with fn "1.prems"(1) have "\<not> (\<forall>d. 2 \<le> d \<and> d < n \<longrightarrow> \<not> d dvd n)"
        by (intro notI) (auto dest: spec [of _ f])
      moreover have "\<not> is_prime_loop n f step"
        using \<open>f * f \<le> n\<close> True by (simp add: is_prime_loop.simps)
      ultimately show ?thesis by blast
    next
      case False
      have step: "is_prime_loop n f step = is_prime_loop n (f + step) (6 - step)"
        using \<open>f * f \<le> n\<close> False by (subst is_prime_loop.simps) simp
      have nf: "\<not> f dvd n"
        using False by (simp add: dvd_eq_mod_eq_0)
      have between: "\<not> d dvd n" if "2 \<le> d" "d < f + step" for d
      proof (cases "d < f")
        case True
        with that "1.prems"(5) show ?thesis by blast
      next
        case False
        show ?thesis
        proof (cases "d = f")
          case True
          with nf show ?thesis by simp
        next
          case False
          with \<open>\<not> d < f\<close> that "1.prems"(2) have "2 dvd d \<or> 3 dvd d"
            by presburger
          with "1.prems"(3,4) show ?thesis
            using dvd_trans by blast
        qed
      qed
      have "is_prime_loop n (f + step) (6 - step) = (\<forall>d. 2 \<le> d \<and> d < n \<longrightarrow> \<not> d dvd n)"
      proof (rule "1.IH" [OF \<open>f * f \<le> n\<close> False])
        show "5 \<le> f + step" using "1.prems"(1,2) by auto
        show "(f + step) mod 6 = 5 \<and> 6 - step = 2 \<or> (f + step) mod 6 = 1 \<and> 6 - step = 4"
          using "1.prems"(2) by presburger
        show "\<not> 2 dvd n" "\<not> 3 dvd n" by fact+
        show "\<forall>d. 2 \<le> d \<and> d < f + step \<longrightarrow> \<not> d dvd n" using between by blast
      qed
      with step show ?thesis by simp
    qed
  qed
qed

lemma is_prime_correct: "is_prime n = prime_number n"
proof -
  consider "n < 2" | "n = 2" | "n = 3" | "4 \<le> n" "2 dvd n \<or> 3 dvd n"
    | "4 \<le> n" "\<not> 2 dvd n" "\<not> 3 dvd n"
    by linarith
  then show ?thesis
  proof cases
    case 1
    then show ?thesis by (simp add: is_prime_def prime_number_def)
  next
    case 2
    then show ?thesis by (simp add: is_prime_def prime_number_def)
  next
    case 3
    have "{2..<3::int} = {2}" by auto
    with 3 show ?thesis by (simp add: is_prime_def prime_number_def)
  next
    case 4
    then have "\<not> prime_number n"
      unfolding prime_number_def by (auto intro: bexI [of _ 2] bexI [of _ 3])
    moreover have "\<not> is_prime n"
      using 4 by (auto simp: is_prime_def dvd_eq_mod_eq_0)
    ultimately show ?thesis by blast
  next
    case 5
    have small: "\<forall>d. 2 \<le> d \<and> d < 5 \<longrightarrow> \<not> d dvd n"
    proof (intro allI impI)
      fix d :: int
      assume "2 \<le> d \<and> d < 5"
      then consider "d = 2" | "d = 3" | "d = 4" by linarith
      then show "\<not> d dvd n"
      proof cases
        case 3
        have "(2::int) dvd 4" by simp
        with 3 5(2) show ?thesis using dvd_trans by blast
      qed (use 5 in auto)
    qed
    have "is_prime n = is_prime_loop n 5 2"
      using 5 by (auto simp: is_prime_def dvd_eq_mod_eq_0)
    also have "\<dots> = (\<forall>d. 2 \<le> d \<and> d < n \<longrightarrow> \<not> d dvd n)"
      by (rule is_prime_loop_correct) (use 5 small in auto)
    also have "\<dots> = prime_number n"
      using 5(1) by (auto simp: prime_number_def)
    finally show ?thesis .
  qed
qed

text \<open>
  \<^verbatim>\<open>_first_n_primes\<close> counts \<^verbatim>\<open>x\<close> upwards until it has \<^verbatim>\<open>n\<close> primes. That loop ends
  because there is a prime above every number: the least factor of \<open>m! + 1\<close>.
\<close>

lemma least_factor_nat:
  assumes "2 \<le> (n::nat)"
  shows "\<exists>p. 2 \<le> p \<and> p dvd n \<and> (\<forall>d. 2 \<le> d \<and> d < p \<longrightarrow> \<not> d dvd p)"
proof -
  define p where "p = (LEAST d. 2 \<le> d \<and> d dvd n)"
  have ex: "2 \<le> n \<and> n dvd n" using assms by simp
  have p: "2 \<le> p \<and> p dvd n"
    unfolding p_def using ex by (rule LeastI)
  have "\<not> d dvd p" if "2 \<le> d" "d < p" for d
  proof
    assume "d dvd p"
    with p have "2 \<le> d \<and> d dvd n" using that(1) dvd_trans by blast
    then have "p \<le> d" unfolding p_def by (rule Least_le)
    with that(2) show False by simp
  qed
  with p show ?thesis by blast
qed

lemma prime_number_above: "\<exists>p. x \<le> p \<and> prime_number p"
proof -
  define m where "m = nat x"
  have "2 \<le> fact m + (1::nat)"
    using fact_ge_1 [of m] by (simp add: Suc_le_eq)
  from least_factor_nat [OF this] obtain p :: nat
    where p2: "2 \<le> p" and pd: "p dvd fact m + 1"
      and pp: "\<forall>d. 2 \<le> d \<and> d < p \<longrightarrow> \<not> d dvd p"
    by blast
  have "m < p"
  proof (rule ccontr)
    assume "\<not> m < p"
    then have "p dvd fact m" using p2 by (intro dvd_fact) auto
    with pd have "p dvd 1" using dvd_add_right_iff by blast
    with p2 show False by simp
  qed
  then have "x \<le> int p" unfolding m_def by linarith
  moreover have "prime_number (int p)"
    unfolding prime_number_def
  proof (intro conjI ballI)
    show "2 \<le> int p" using p2 by simp
  next
    fix d assume d: "d \<in> {2..<int p}"
    then have "2 \<le> nat d \<and> nat d < p" by auto
    with pp have "\<not> nat d dvd p" by blast
    moreover have "int (nat d) = d" using d by simp
    ultimately show "\<not> d dvd int p"
      by (metis int_dvd_int_iff)
  qed
  ultimately show ?thesis by blast
qed

lemma next_prime_closer:
  assumes "\<not> is_prime x"
  shows "(LEAST d. is_prime (x + 1 + int d)) < (LEAST d. is_prime (x + int d))"
proof -
  from prime_number_above [of x] obtain p where p: "x \<le> p" "is_prime p"
    by (auto simp: is_prime_correct)
  then have "is_prime (x + int (nat (p - x)))" by simp
  then have l: "is_prime (x + int (LEAST d. is_prime (x + int d)))"
    by (rule LeastI)
  define d0 where "d0 = (LEAST d. is_prime (x + int d))"
  from l assms have "d0 \<noteq> 0"
    unfolding d0_def by (intro notI) simp
  then obtain d1 where d1: "d0 = Suc d1" by (cases d0) auto
  with l have "is_prime (x + 1 + int d1)"
    unfolding d0_def [symmetric] by (simp add: algebra_simps)
  then have "(LEAST d. is_prime (x + 1 + int d)) \<le> d1"
    by (rule Least_le)
  with d1 show ?thesis unfolding d0_def by simp
qed

function first_n_primes_loop :: "int \<Rightarrow> int list \<Rightarrow> int \<Rightarrow> int list" where
  "first_n_primes_loop n primes x =
     (if int (length primes) < n
      then first_n_primes_loop n (if is_prime x then primes @ [x] else primes) (x + 1)
      else primes)"
  by pat_completeness auto
termination
proof (relation "measures [\<lambda>(n, primes, x). nat (n - int (length primes)),
                           \<lambda>(n, primes, x). LEAST d. is_prime (x + int d)]", goal_cases)
  case 1
  show ?case by simp
next
  case (2 n primes x)
  show ?case
  proof (cases "is_prime x")
    case True
    with 2 show ?thesis by simp
  next
    case False
    with 2 next_prime_closer [OF False] show ?thesis by simp
  qed
qed

declare first_n_primes_loop.simps [simp del]

definition first_n_primes :: "int \<Rightarrow> int list" where
  "first_n_primes n = first_n_primes_loop n [] 2"

text \<open>
  The true sequence of the first primes: an increasing list of primes that misses no
  prime below any of its members. There is one such list of each length.
\<close>

definition leading_primes :: "int list \<Rightarrow> bool" where
  "leading_primes ps =
     (sorted_wrt (<) ps \<and> (\<forall>p \<in> set ps. prime_number p) \<and>
      (\<forall>p \<in> set ps. \<forall>q \<in> {2..<p}. prime_number q \<longrightarrow> q \<in> set ps))"

lemma leading_primes_upto: "leading_primes (filter prime_number [2..y])"
  unfolding leading_primes_def
  by (auto intro: sorted_wrt_filter)

lemma first_n_primes_loop_correct:
  assumes "primes = filter prime_number [2..x - 1]" and "2 \<le> x" and "int (length primes) \<le> n"
  shows "\<exists>y. first_n_primes_loop n primes x = filter prime_number [2..y] \<and>
             int (length (first_n_primes_loop n primes x)) = n"
  using assms
proof (induction n primes x rule: first_n_primes_loop.induct)
  case (1 n primes x)
  show ?case
  proof (cases "int (length primes) < n")
    case False
    with "1.prems" show ?thesis
      by (subst (1 2) first_n_primes_loop.simps) auto
  next
    case True
    define primes' where "primes' = (if is_prime x then primes @ [x] else primes)"
    have "[2..x] = [2..x - 1] @ [x]"
      using "1.prems"(2) by (intro upto_rec2) simp
    then have p: "primes' = filter prime_number [2..x + 1 - 1]"
      using "1.prems"(1) by (simp add: primes'_def is_prime_correct)
    have l: "int (length primes') \<le> n"
      using True by (simp add: primes'_def)
    have "\<exists>y. first_n_primes_loop n primes' (x + 1) = filter prime_number [2..y] \<and>
              int (length (first_n_primes_loop n primes' (x + 1))) = n"
      using "1.IH" [OF True, folded primes'_def, OF p _ l] "1.prems"(2) by simp
    moreover have "first_n_primes_loop n primes x = first_n_primes_loop n primes' (x + 1)"
      using True by (subst first_n_primes_loop.simps) (simp add: primes'_def)
    ultimately show ?thesis by simp
  qed
qed

lemma first_n_primes_correct:
  assumes "0 \<le> n"
  shows "leading_primes (first_n_primes n) \<and> int (length (first_n_primes n)) = n"
proof -
  have e: "[] = filter prime_number [2..2 - 1]" by simp
  have "\<exists>y. first_n_primes_loop n [] 2 = filter prime_number [2..y] \<and>
            int (length (first_n_primes_loop n [] 2)) = n"
    by (rule first_n_primes_loop_correct [OF e]) (use assms in simp_all)
  then obtain y where "first_n_primes n = filter prime_number [2..y]"
    and "int (length (first_n_primes n)) = n"
    unfolding first_n_primes_def by blast
  then show ?thesis
    using leading_primes_upto by simp
qed

lemma leading_primes_subset:
  assumes "leading_primes ps" and "leading_primes qs" and "\<not> set ps \<subseteq> set qs"
  shows "set qs \<subseteq> set ps"
proof
  fix q assume q: "q \<in> set qs"
  from assms(3) obtain p where p: "p \<in> set ps" "p \<notin> set qs" by blast
  have pp: "prime_number p" "prime_number q"
    using assms(1,2) p(1) q by (auto simp: leading_primes_def)
  have "q < p"
  proof (rule ccontr)
    assume "\<not> q < p"
    with p(2) q have "p < q" by (cases "p = q") auto
    with pp(1) have "p \<in> {2..<q}" by (simp add: prime_number_def)
    with assms(2) q pp(1) have "p \<in> set qs"
      unfolding leading_primes_def by blast
    with p(2) show False by simp
  qed
  with pp(2) have "q \<in> {2..<p}" by (simp add: prime_number_def)
  with assms(1) p(1) pp(2) show "q \<in> set ps"
    unfolding leading_primes_def by blast
qed

lemma leading_primes_unique:
  assumes "leading_primes ps" and "leading_primes qs" and "length ps = length qs"
  shows "ps = qs"
proof -
  have sd: "sorted ps" "distinct ps" "sorted qs" "distinct qs"
    using assms(1,2) by (auto simp: leading_primes_def strict_sorted_iff)
  then have c: "card (set ps) = card (set qs)"
    using assms(3) by (simp add: distinct_card)
  have "set ps = set qs"
  proof (cases "set ps \<subseteq> set qs")
    case True
    then show ?thesis using c by (intro card_subset_eq) auto
  next
    case False
    from leading_primes_subset [OF assms(1,2) False] have "set qs \<subseteq> set ps" .
    then have "set qs = set ps" using c by (intro card_subset_eq) auto
    then show ?thesis by simp
  qed
  with sd show ?thesis
    by (intro sorted_distinct_set_unique)
qed

section \<open>\<^verbatim>\<open>Engineer.validate_output\<close>\<close>

text \<open>
  The confidence values are float literals of the source and are only stored and compared,
  never computed with; they are taken as the reals they spell. The function raises where
  an unguarded \<^verbatim>\<open>int\<close> does; the \<^verbatim>\<open>try\<close> around the goal's number turns a failure into
  \<^verbatim>\<open>target_n = None\<close>. Its first parameter is the interpreter's limit on digits.
\<close>

record validation =
  meets_goal :: bool
  confidence :: real
  "notes" :: "string list"

definition validate_output :: "nat \<Rightarrow> string \<Rightarrow> string \<Rightarrow> error + validation" where
  "validate_output max_str_digits out g =
     (let validation = \<lparr>meets_goal = False, confidence = 0, notes = []\<rparr> in
      if out = [] \<or> py_strip out = []
      then Inr (validation\<lparr>notes := notes validation @ [''No output produced'']\<rparr>)
      else
        let goal_lower = py_lower g in
        if contains ''prime'' goal_lower
        then
          (case py_ints max_str_digits (findall_ints out) of
             Inl e \<Rightarrow> Inl e
           | Inr numbers \<Rightarrow>
               if numbers = []
               then Inr (validation\<lparr>notes := notes validation @
                           [''No numbers detected in output'']\<rparr>)
               else
                 let nums_in_goal = findall_digits goal_lower;
                     target_n =
                       (if nums_in_goal \<noteq> []
                        then (case py_int max_str_digits (hd nums_in_goal) of
                                Inl e \<Rightarrow> None
                              | Inr n \<Rightarrow> Some n)
                        else None);
                     first_primes = [2, 3, 5, 7, 11, 13, 17, 19];
                     heuristic =
                       (if list_all (\<lambda>p. p \<in> set (take (max 10 (length numbers)) numbers))
                             (take 5 first_primes)
                        then validation\<lparr>meets_goal := True, confidence := 0.8,
                               notes := notes validation @
                                 [''Output contains several correct small primes'']\<rparr>
                        else validation\<lparr>confidence := 0.3,
                               notes := notes validation @
                                 [''Numbers found but may not all be primes'']\<rparr>)
                 in Inr (case target_n of
                           None \<Rightarrow> heuristic
                         | Some n \<Rightarrow>
                             if contains ''first'' goal_lower \<and> n \<noteq> 0
                             then
                               (let expected = first_n_primes n;
                                    candidate = take (nat n) numbers
                                in if candidate = expected
                                   then validation\<lparr>meets_goal := True, confidence := 0.98,
                                          notes := notes validation @
                                            [''Output matches first '' @ py_str n @
                                             '' primes exactly'']\<rparr>
                                   else validation\<lparr>confidence := 0.2,
                                          notes := notes validation @
                                            [''First '' @ py_str n @
                                             '' numbers do not match expected prime sequence'']\<rparr>)
                             else heuristic))
        else if contains ''fibonacci'' goal_lower
        then
          (case py_ints max_str_digits (findall_ints out) of
             Inl e \<Rightarrow> Inl e
           | Inr numbers \<Rightarrow>
               if 5 \<le> length numbers
               then
                 (let fib5a = [0, 1, 1, 2, 3]; fib5b = [1, 1, 2, 3, 5] in
                  if take 5 numbers = fib5a \<or> take 5 numbers = fib5b
                  then Inr (validation\<lparr>meets_goal := True, confidence := 0.9,
                              notes := notes validation @
                                [''Output begins with a valid Fibonacci prefix'']\<rparr>)
                  else Inr (validation\<lparr>confidence := 0.4,
                              notes := notes validation @
                                [''Numbers present but Fibonacci pattern unclear'']\<rparr>))
               else Inr (validation\<lparr>notes := notes validation @
                           [''Too few numbers found for Fibonacci validation'']\<rparr>))
        else
          if 10 < length (py_strip out)
          then Inr (validation\<lparr>meets_goal := True, confidence := 0.5,
                      notes := notes validation @ [''Produced nontrivial output'']\<rparr>)
          else Inr validation)"

lemma py_ints_within_limit:
  "\<forall>tok \<in> set toks. within_limit m tok \<Longrightarrow> py_ints m toks = Inr (map int_value toks)"
  by (induction toks) (auto simp: py_int_def)

lemma py_ints_beyond_limit:
  "\<exists>tok \<in> set toks. \<not> within_limit m tok \<Longrightarrow> py_ints m toks = Inl ValueError"
  by (induction toks) (auto simp: py_int_def split: sum.splits error.splits)

lemma py_strip_empty_iff: "py_strip s = [] \<longleftrightarrow> (\<forall>c \<in> set s. py_isspace c)"
proof
  assume "\<forall>c \<in> set s. py_isspace c"
  then show "py_strip s = []" by (auto simp: py_strip_def dest: set_dropWhileD)
next
  assume e: "py_strip s = []"
  show "\<forall>c \<in> set s. py_isspace c"
  proof (cases "dropWhile py_isspace s")
    case Nil
    then show ?thesis by (simp add: dropWhile_eq_Nil_conv)
  next
    case (Cons c cs)
    then have "\<not> py_isspace c"
      by (metis hd_dropWhile list.sel(1) list.distinct(1))
    moreover from e Cons have "py_isspace c"
      by (simp add: py_strip_def dropWhile_eq_Nil_conv)
    ultimately show ?thesis by simp
  qed
qed

lemma findall_ints_digit: "findall_ints s \<noteq> [] \<Longrightarrow> \<exists>c \<in> set s. py_isdigit c"
proof (induction s rule: findall_ints.induct)
  case 1
  then show ?case by simp
next
  case (2 c cs)
  show ?case
  proof (cases "py_isdigit c \<or> (cs \<noteq> [] \<and> py_isdigit (hd cs))")
    case True
    then show ?thesis by (cases cs) auto
  next
    case False
    with 2 show ?thesis by (auto split: if_splits)
  qed
qed

lemma digit_not_space: "py_isdigit c \<Longrightarrow> \<not> py_isspace c"
  by (auto simp: py_isdigit_def py_isspace_def)

lemma findall_ints_not_blank: "findall_ints s \<noteq> [] \<Longrightarrow> py_strip s \<noteq> []"
  using findall_ints_digit [of s] digit_not_space
  by (auto simp: py_strip_empty_iff)

text \<open>
  Where the goal is about primes or Fibonacci numbers and some integer token of the output
  is beyond the limit, the unguarded \<^verbatim>\<open>int(n)\<close> raises and no record is returned.
\<close>

lemma validate_output_raises:
  assumes "py_strip out \<noteq> []"
    and "contains ''prime'' (py_lower g) \<or> contains ''fibonacci'' (py_lower g)"
    and "\<exists>tok \<in> set (findall_ints out). \<not> within_limit max_str_digits tok"
  shows "validate_output max_str_digits out g = Inl ValueError"
proof -
  from assms(1) have "out \<noteq> []" by (auto simp: py_strip_def)
  with assms(1,2) show ?thesis
    by (auto simp: validate_output_def Let_def py_ints_beyond_limit [OF assms(3)])
qed

text \<open>
  A number in the goal that is beyond the limit is not an error: the \<^verbatim>\<open>try\<close> statement
  leaves \<^verbatim>\<open>target_n\<close> at \<^verbatim>\<open>None\<close>.
\<close>

lemma py_int_beyond_limit:
  "\<not> within_limit max_str_digits tok \<Longrightarrow> py_int max_str_digits tok = Inl ValueError"
  by (simp add: py_int_def)

text \<open>
  C9. For every goal, \<^verbatim>\<open>validate_output\<close> on an output that is empty or consists of
  whitespace only returns \<^verbatim>\<open>meets_goal\<close> false, confidence 0.0 and the single note
  "No output produced"; it returns a result and raises no error, whatever the limit on
  digits is.
\<close>

theorem validate_blank_output:
  assumes "\<forall>c \<in> set out. py_isspace c"
  shows "validate_output max_str_digits out g =
           Inr \<lparr>meets_goal = False, confidence = 0, notes = [''No output produced'']\<rparr>"
  using assms by (simp add: validate_output_def py_strip_empty_iff)

theorem validate_blank_output_witness:
  "validate_output 4300 ('' '' @ [NL]) ''write a function to find the first 10 prime numbers'' =
     Inr \<lparr>meets_goal = False, confidence = 0, notes = [''No output produced'']\<rparr>"
  by (rule validate_blank_output) (simp add: py_isspace_def NL_def)

text \<open>
  C8 as stated fails on a blank output: fewer than five integers are extracted from it,
  but the test for an empty output comes first, and its note is "No output produced".
\<close>

theorem validate_fibonacci_blank_counterexample:
  "contains ''fibonacci'' (py_lower ''fibonacci sequence'') \<and>
   \<not> contains ''prime'' (py_lower ''fibonacci sequence'') \<and>
   length (findall_ints []) < 5 \<and>
   validate_output 4300 [] ''fibonacci sequence'' =
     Inr \<lparr>meets_goal = False, confidence = 0, notes = [''No output produced'']\<rparr>"
  by (simp add: validate_output_def py_lower_def py_lower_char_def)

text \<open>
  C8, amended. For every goal that contains "fibonacci" but not "prime" (read in lower
  case, as the code does) and every output that is not blank and whose integer tokens
  are all within the interpreter's limit on digits, so that \<^verbatim>\<open>int\<close> converts them:
  with at least five integers extracted whose first five are 0, 1, 1, 2, 3 or
  1, 1, 2, 3, 5 the result is \<^verbatim>\<open>meets_goal\<close> true with confidence 0.9; with at least
  five and neither prefix it is \<^verbatim>\<open>meets_goal\<close> false with confidence 0.4; with fewer than
  five it is \<^verbatim>\<open>meets_goal\<close> false with the note that too few numbers were found.
\<close>

theorem validate_fibonacci:
  assumes "contains ''fibonacci'' (py_lower g)" and "\<not> contains ''prime'' (py_lower g)"
    and "py_strip out \<noteq> []"
    and "\<forall>tok \<in> set (findall_ints out). within_limit max_str_digits tok"
  shows "validate_output max_str_digits out g =
           Inr (if 5 \<le> length (findall_ints out)
                then (if take 5 (map int_value (findall_ints out)) = [0, 1, 1, 2, 3] \<or>
                         take 5 (map int_value (findall_ints out)) = [1, 1, 2, 3, 5]
                      then \<lparr>meets_goal = True, confidence = 0.9,
                             notes = [''Output begins with a valid Fibonacci prefix'']\<rparr>
                      else \<lparr>meets_goal = False, confidence = 0.4,
                             notes = [''Numbers present but Fibonacci pattern unclear'']\<rparr>)
                else \<lparr>meets_goal = False, confidence = 0,
                       notes = [''Too few numbers found for Fibonacci validation'']\<rparr>)"
proof -
  from assms(3) have "out \<noteq> []" by (auto simp: py_strip_def)
  with assms(1-3) show ?thesis
    by (simp add: validate_output_def Let_def py_ints_within_limit [OF assms(4)])
qed

theorem validate_fibonacci_witness:
  "validate_output 4300 ''0 1 1 2 3 5'' ''fibonacci sequence'' =
     Inr \<lparr>meets_goal = True, confidence = 0.9,
          notes = [''Output begins with a valid Fibonacci prefix'']\<rparr>"
proof -
  have l: "py_lower ''fibonacci sequence'' = ''fibonacci sequence''"
    by (simp add: py_lower_def py_lower_char_def)
  have f: "findall_ints ''0 1 1 2 3 5'' = [''0'', ''1'', ''1'', ''2'', ''3'', ''5'']"
    by (simp add: py_isdigit_def)
  have s: "py_strip ''0 1 1 2 3 5'' \<noteq> []"
    by (simp add: py_strip_def py_isspace_def)
  have w: "\<forall>tok \<in> set (findall_ints ''0 1 1 2 3 5''). within_limit 4300 tok"
    unfolding f by (simp add: within_limit_def digit_count_def)
  show ?thesis
    using validate_fibonacci [of "''fibonacci sequence''" "''0 1 1 2 3 5''" 4300, OF _ _ s w]
    unfolding l f
    by (simp add: int_of_digits_def digit_val_def)
qed

text \<open>
  C2 as stated fails for N = 0: \<^verbatim>\<open>target_n\<close> is tested for truth, 0 is false in Python,
  and a goal asking for the first 0 primes is judged by the heuristic branch.
\<close>

theorem validate_first_zero_counterexample:
  "contains ''prime'' (py_lower ''first 0 primes'') \<and>
   contains ''first'' (py_lower ''first 0 primes'') \<and>
   findall_digits (py_lower ''first 0 primes'') = [''0''] \<and>
   py_int 4300 ''0'' = Inr 0 \<and>
   py_ints 4300 (findall_ints ''5'') = Inr [5] \<and>
   take 0 [5] = first_n_primes 0 \<and>
   validate_output 4300 ''5'' ''first 0 primes'' =
     Inr \<lparr>meets_goal = False, confidence = 0.3,
          notes = [''Numbers found but may not all be primes'']\<rparr>"
proof -
  have l: "py_lower ''first 0 primes'' = ''first 0 primes''"
    by (simp add: py_lower_def py_lower_char_def)
  have d: "findall_digits ''first 0 primes'' = [''0'']"
    by (simp add: py_isdigit_def)
  have i: "findall_ints ''5'' = [''5'']"
    by (simp add: py_isdigit_def)
  have z: "py_int 4300 ''0'' = Inr 0"
    by (simp add: py_int_def within_limit_def digit_count_def int_of_digits_def digit_val_def)
  have n: "py_int 4300 ''5'' = Inr 5"
    by (simp add: py_int_def within_limit_def digit_count_def int_of_digits_def digit_val_def)
  have p: "first_n_primes 0 = []"
    by (simp add: first_n_primes_def first_n_primes_loop.simps)
  have s: "py_strip ''5'' = ''5''"
    by (simp add: py_strip_def py_isspace_def)
  show ?thesis
    unfolding validate_output_def l d i p s Let_def
    by (simp add: z n)
qed

text \<open>
  C2, amended. For every goal that contains "prime" and "first" (read in lower case) and
  whose first run of digits \<^verbatim>\<open>int\<close> converts to a positive integer N, and every output
  from which at least one integer token is extracted and whose tokens \<^verbatim>\<open>int\<close> converts
  (conversion fails only beyond the interpreter's limit on digits): the reference list
  the code computes is the true sequence of the first N primes (it is such a sequence, it
  has N members, and it is the only one), and \<^verbatim>\<open>validate_output\<close> returns \<^verbatim>\<open>meets_goal\<close>
  true with confidence 0.98 exactly when the first N extracted integers equal it, and
  \<^verbatim>\<open>meets_goal\<close> false with confidence 0.2 otherwise.
\<close>

theorem validate_first_n_primes:
  assumes "contains ''prime'' (py_lower g)" and "contains ''first'' (py_lower g)"
    and "findall_digits (py_lower g) = tok # toks"
    and "py_int max_str_digits tok = Inr N" and "0 < N"
    and "findall_ints out \<noteq> []"
    and "\<forall>t \<in> set (findall_ints out). within_limit max_str_digits t"
  shows "leading_primes (first_n_primes N) \<and> int (length (first_n_primes N)) = N \<and>
         (\<forall>ps. leading_primes ps \<and> int (length ps) = N \<longrightarrow> ps = first_n_primes N) \<and>
         validate_output max_str_digits out g =
           Inr (if take (nat N) (map int_value (findall_ints out)) = first_n_primes N
                then \<lparr>meets_goal = True, confidence = 0.98,
                       notes = [''Output matches first '' @ py_str N @ '' primes exactly'']\<rparr>
                else \<lparr>meets_goal = False, confidence = 0.2,
                       notes = [''First '' @ py_str N @
                                '' numbers do not match expected prime sequence'']\<rparr>)"
proof -
  have c: "leading_primes (first_n_primes N) \<and> int (length (first_n_primes N)) = N"
    using assms(5) by (intro first_n_primes_correct) simp
  have u: "ps = first_n_primes N" if "leading_primes ps \<and> int (length ps) = N" for ps
    using that c by (intro leading_primes_unique) auto
  have b: "py_strip out \<noteq> []" "out \<noteq> []"
    using findall_ints_not_blank [OF assms(6)] assms(6) by auto
  have "validate_output max_str_digits out g =
          Inr (if take (nat N) (map int_value (findall_ints out)) = first_n_primes N
               then \<lparr>meets_goal = True, confidence = 0.98,
                      notes = [''Output matches first '' @ py_str N @ '' primes exactly'']\<rparr>
               else \<lparr>meets_goal = False, confidence = 0.2,
                      notes = [''First '' @ py_str N @
                               '' numbers do not match expected prime sequence'']\<rparr>)"
    using assms(1-6) b
    by (simp add: validate_output_def Let_def py_ints_within_limit [OF assms(7)])
  with c u show ?thesis by blast
qed

theorem validate_first_n_primes_witness:
  "validate_output 4300 ''[2, 3, 5]'' ''Print the FIRST 3 primes'' =
     Inr \<lparr>meets_goal = True, confidence = 0.98,
          notes = [''Output matches first 3 primes exactly'']\<rparr> \<and>
   validate_output 4300 ''[2, 3, 4]'' ''Print the FIRST 3 primes'' =
     Inr \<lparr>meets_goal = False, confidence = 0.2,
          notes = [''First 3 numbers do not match expected prime sequence'']\<rparr>"
proof -
  have l: "py_lower ''Print the FIRST 3 primes'' = ''print the first 3 primes''"
    by code_simp
  have d: "findall_digits ''print the first 3 primes'' = [''3'']"
    by (simp add: py_isdigit_def)
  have n: "py_int 4300 ''3'' = Inr 3"
    by (simp add: py_int_def within_limit_def digit_count_def int_of_digits_def digit_val_def)
  have i: "findall_ints ''[2, 3, 5]'' = [''2'', ''3'', ''5'']"
     "findall_ints ''[2, 3, 4]'' = [''2'', ''3'', ''4'']"
    by (simp_all add: py_isdigit_def)
  have w: "\<forall>t \<in> set [''2'', ''3'', ''5'']. within_limit 4300 t"
     "\<forall>t \<in> set [''2'', ''3'', ''4'']. within_limit 4300 t"
    by (simp_all add: within_limit_def digit_count_def)
  have p: "first_n_primes 3 = [2, 3, 5]"
    by (simp add: first_n_primes_def first_n_primes_loop.simps is_prime_def
          is_prime_loop.simps)
  have s: "py_str 3 = ''3''"
    by (simp add: py_str_def char_of_def bit_Suc_0_iff)
  have c: "contains ''prime'' (py_lower ''Print the FIRST 3 primes'')"
     "contains ''first'' (py_lower ''Print the FIRST 3 primes'')"
    unfolding l by simp_all
  show ?thesis
    using validate_first_n_primes [OF c, of "''3''" "[]" 4300 3 "''[2, 3, 5]''"]
      validate_first_n_primes [OF c, of "''3''" "[]" 4300 3 "''[2, 3, 4]''"]
    unfolding l d n i p s
    using w by (simp add: int_of_digits_def digit_val_def)
qed

section \<open>Extraction on plain source\<close>

text \<open>
  A text is unfenced when it holds no run of three backquotes, and free of keywords when
  none of the prefixes that the line scan recognises occurs in it anywhere. A line looks
  like code to the scan when, stripped, it is empty, starts with one of those prefixes, or
  ends with a colon.
\<close>

definition unfenced :: "string \<Rightarrow> bool" where
  "unfenced s = (\<not> contains ''```'' s)"

definition keyword_free :: "string \<Rightarrow> bool" where
  "keyword_free s = (\<not> list_ex (\<lambda>k. contains k s) line_keywords)"

definition code_like_line :: "string \<Rightarrow> bool" where
  "code_like_line line =
     (py_strip line = [] \<or> startswith_any (py_strip line) line_keywords \<or>
      endswith (py_strip line) '':'')"

lemma startswith_append: "startswith s (p @ q) \<Longrightarrow> startswith s p"
  by (induction s p rule: startswith.induct) auto

lemma findall_fenced_unfenced:
  "\<not> contains ''```'' s \<Longrightarrow> findall_fenced (''```'' @ x) s = []"
proof (induction s)
  case Nil
  then show ?case by simp
next
  case (Cons c cs)
  from Cons.prems have n: "\<not> startswith (c # cs) ''```''" and r: "\<not> contains ''```'' cs"
    by simp_all
  from n have "\<not> startswith (c # cs) (''```'' @ x)"
    using startswith_append by blast
  with Cons.IH [OF r] show ?case
    by (simp del: startswith.simps)
qed

lemma split_nl_nonempty: "split_nl s \<noteq> []"
  by (induction s) (auto split: list.splits)

lemma join_split_nl: "join_nl (split_nl s) = s"
proof (induction s)
  case Nil
  then show ?case by simp
next
  case (Cons c cs)
  obtain l ls where s: "split_nl cs = l # ls"
    using split_nl_nonempty [of cs] by (cases "split_nl cs") auto
  with Cons show ?case
    by (cases ls) auto
qed

lemma collect_lines_all:
  "\<forall>line \<in> set ls. code_like_line line \<Longrightarrow> collect_lines True acc ls = acc @ ls"
  by (induction ls arbitrary: acc) (auto simp: code_like_line_def Let_def)

text \<open>
  C6 as stated fails: the line scan starts to collect only at a line that begins with
  \<^verbatim>\<open>import\<close>, \<^verbatim>\<open>from\<close>, \<^verbatim>\<open>def\<close> or \<^verbatim>\<open>class\<close>, so from clean, unfenced source
  without any keyword it collects nothing and \<^verbatim>\<open>extract_code\<close> returns \<^verbatim>\<open>None\<close>.
\<close>

theorem extract_code_keyword_free_counterexample:
  "unfenced ''x = 1'' \<and> keyword_free ''x = 1'' \<and> extract_code ''x = 1'' = None"
  by (simp add: unfenced_def keyword_free_def line_keywords_def extract_code_def NL_def
        py_strip_def py_isspace_def startswith_any_def start_keywords_def)

text \<open>
  C6, amended. \<^verbatim>\<open>extract_code\<close> returns a source text unchanged when the text is
  unfenced, its first line begins (after stripping) with \<^verbatim>\<open>import\<close>, \<^verbatim>\<open>from\<close>,
  \<^verbatim>\<open>def\<close> or \<^verbatim>\<open>class\<close> followed by a space, and every line of it looks like code to
  the scan. On such a text extraction is the identity, trailing whitespace included.
\<close>

theorem extract_code_noop:
  assumes "unfenced s"
    and "startswith_any (py_strip (hd (split_nl s))) start_keywords"
    and "\<forall>line \<in> set (split_nl s). code_like_line line"
  shows "extract_code s = Some s"
proof -
  obtain l ls where s: "split_nl s = l # ls"
    using split_nl_nonempty [of s] by (cases "split_nl s") auto
  have f1: "findall_fenced (''```python'' @ [NL]) s = []"
    using findall_fenced_unfenced [of s "''python'' @ [NL]"] assms(1)
    by (simp add: unfenced_def)
  have f2: "findall_fenced (''```'' @ [NL]) s = []"
    using findall_fenced_unfenced [of s "[NL]"] assms(1)
    by (simp add: unfenced_def)
  have l: "code_like_line l" and ls: "\<forall>line \<in> set ls. code_like_line line"
    using assms(3) s by simp_all
  have "collect_lines False [] (split_nl s) = collect_lines True [l] ls"
    using assms(2) l unfolding s
    by (auto simp: code_like_line_def Let_def)
  also have "\<dots> = l # ls"
    using collect_lines_all [OF ls, of "[l]"] by simp
  finally have c: "collect_lines False [] (split_nl s) = split_nl s"
    by (simp add: s)
  show ?thesis
    unfolding extract_code_def Let_def f1 f2 c
    by (simp add: split_nl_nonempty join_split_nl)
qed

definition clean_source :: string where
  "clean_source = ''def f():'' @ [NL] @ ''    return 1''"

theorem extract_code_noop_witness: "extract_code clean_source = Some clean_source"
proof (rule extract_code_noop)
  have sp: "split_nl clean_source = [''def f():'', ''    return 1'']"
    by (simp add: clean_source_def NL_def)
  show "unfenced clean_source"
    by (simp add: unfenced_def clean_source_def NL_def)
  show "startswith_any (py_strip (hd (split_nl clean_source))) start_keywords"
    unfolding sp by (simp add: py_strip_def py_isspace_def startswith_any_def start_keywords_def)
  show "\<forall>line \<in> set (split_nl clean_source). code_like_line line"
    unfolding sp
    by (simp add: code_like_line_def py_strip_def py_isspace_def startswith_any_def
          line_keywords_def endswith_def)
qed

end
